theory Spec2Isabelle
  imports Main "HOL-Library.Word" "HOL-Library.Signed_Division"
begin

unbundle bit_operations_syntax

section \<open>The DALI driver of \<^verbatim>\<open>dali.go\<close>\<close>

text \<open>
  The driver encodes a forward frame, writes it to a serial port, reads backward frames,
  scans the 64 short addresses and commissions the bus by a binary search over the
  24-bit long addresses. Go's \<^verbatim>\<open>uint8\<close> is \<^typ>\<open>8 word\<close>. Go's \<^verbatim>\<open>int\<close> and
  \<^verbatim>\<open>int64\<close> are \<^typ>\<open>int\<close>: every value the driver computes in them stays
  between \<open>-1\<close> and \<open>2 ^ 25\<close>, far from the 64-bit limits. Go's \<^verbatim>\<open>/\<close> truncates
  towards zero, which is \<open>sdiv\<close>. A run-time panic of Go (an index out of range, a
  negative shift count) is the value \<open>None\<close> of the encoder and the outcome
  \<open>Panicked\<close> of the functions that call it.

  The first letter of \<^verbatim>\<open>Issue_dali_request\<close> and \<^verbatim>\<open>Initialize_dali\<close> is a
  Greek capital iota in the source; it is the Latin letter here.
\<close>

type_synonym u8 = "8 word"

subsection \<open>Constants\<close>

definition BROADCAST_C :: u8 where "BROADCAST_C = 0b11111111"
definition ON_C :: u8 where "ON_C = 0b00000101"
definition OFF_C :: u8 where "OFF_C = 0b00000000"

subsection \<open>The frame encoder\<close>

text \<open>\<^verbatim>\<open>is_bit_set\<close>: \<^verbatim>\<open>val := n & (1 << pos); return val > 0\<close>. The constant 1
  takes the type of \<open>n\<close>, so a shift by 8 or more gives 0; a negative shift count
  panics.\<close>

definition is_bit_set :: "u8 \<Rightarrow> int \<Rightarrow> bool option" where
  "is_bit_set n pos =
     (if pos < 0 then None
      else (let val = n AND push_bit (nat pos) 1 in Some (val > 0)))"

text \<open>The two stores of the encoder's loop body,
  \<^verbatim>\<open>msg[byte_frame] = msg[byte_frame] | (1 << msg_cn)\<close> and
  \<^verbatim>\<open>msg[byte_frame] = msg[byte_frame] &^ (1 << msg_cn)\<close>: an index outside the slice
  and a negative shift count panic.\<close>

definition set_msg_bit :: "u8 list \<Rightarrow> int \<Rightarrow> int \<Rightarrow> u8 list option" where
  "set_msg_bit msg byte_frame msg_cn =
     (if byte_frame < 0 \<or> int (length msg) \<le> byte_frame \<or> msg_cn < 0 then None
      else Some (msg[nat byte_frame := (msg ! nat byte_frame) OR push_bit (nat msg_cn) 1]))"

definition unset_msg_bit :: "u8 list \<Rightarrow> int \<Rightarrow> int \<Rightarrow> u8 list option" where
  "unset_msg_bit msg byte_frame msg_cn =
     (if byte_frame < 0 \<or> int (length msg) \<le> byte_frame \<or> msg_cn < 0 then None
      else Some (msg[nat byte_frame :=
                   (msg ! nat byte_frame) AND NOT (push_bit (nat msg_cn) 1)]))"

text \<open>The inner loop \<^verbatim>\<open>for i := 7; i < 0; i++\<close> over the state
  \<open>(msg, byte_frame, msg_cn)\<close>, with the condition as the source has it.\<close>

function bit_loop :: "u8 \<Rightarrow> int \<Rightarrow> u8 list \<times> int \<times> int \<Rightarrow> (u8 list \<times> int \<times> int) option" where
  "bit_loop dali_convert i (msg, byte_frame, msg_cn) =
     (if i < 0 then
        (let (msg_cn, byte_frame) =
               (if msg_cn < 0 then (7, byte_frame + 1) else (msg_cn, byte_frame))
         in Option.bind (is_bit_set dali_convert i) (\<lambda>b.
              if b then
                Option.bind (unset_msg_bit msg byte_frame msg_cn) (\<lambda>msg.
                Option.bind (set_msg_bit msg byte_frame (msg_cn - 1)) (\<lambda>msg.
                  bit_loop dali_convert (i + 1) (msg, byte_frame, msg_cn - 1 - 1)))
              else
                Option.bind (set_msg_bit msg byte_frame msg_cn) (\<lambda>msg.
                Option.bind (unset_msg_bit msg byte_frame (msg_cn - 1)) (\<lambda>msg.
                  bit_loop dali_convert (i + 1) (msg, byte_frame, msg_cn - 1 - 1)))))
      else Some (msg, byte_frame, msg_cn))"
  by pat_completeness auto
termination
  by (relation "measure (\<lambda>(dali_convert, i, st). nat (- i))") auto

text \<open>The outer loop \<^verbatim>\<open>for j := 0; j < 2; j++\<close>: the address first, the command
  when \<open>j = 1\<close>.\<close>

function frame_loop :: "u8 \<Rightarrow> int \<Rightarrow> u8 \<Rightarrow> u8 list \<times> int \<times> int \<Rightarrow> (u8 list \<times> int \<times> int) option" where
  "frame_loop dali_command j dali_convert st =
     (if j < 2 then
        (let dali_convert = (if j = 1 then dali_command else dali_convert)
         in Option.bind (bit_loop dali_convert 7 st) (\<lambda>st.
              frame_loop dali_command (j + 1) dali_convert st))
      else Some st)"
  by pat_completeness auto
termination
  by (relation "measure (\<lambda>(dali_command, j, dali_convert, st). nat (2 - j))") auto

definition create_dali_frame :: "u8 \<Rightarrow> u8 \<Rightarrow> u8 list option" where
  "create_dali_frame dali_address dali_command =
     (let msg = replicate 5 (0 :: u8);
          byte_frame = 0;
          msg = msg[nat byte_frame := (msg ! nat byte_frame) OR 0x40];
          msg_cn = 5;
          dali_convert = dali_address
      in map_option fst (frame_loop dali_command 0 dali_convert (msg, byte_frame, msg_cn)))"

subsection \<open>Long addresses and responses\<close>

text \<open>\<^verbatim>\<open>split_address\<close>: \<^verbatim>\<open>uint8(input >> 16), uint8(input >> 8), uint8(input)\<close>.
  The shift of a signed integer is arithmetic, the conversion keeps the low 8 bits.\<close>

definition split_address :: "int \<Rightarrow> u8 \<times> u8 \<times> u8" where
  "split_address input =
     (let highbyte = (word_of_int (drop_bit 16 input) :: u8);
          middlebyte = (word_of_int (drop_bit 8 input) :: u8);
          lowbyte = (word_of_int input :: u8)
      in (highbyte, middlebyte, lowbyte))"

text \<open>The test both callers make on the three bytes read, each from its own lines of
  the source: line 255 of \<^verbatim>\<open>Scan_addresses\<close> and line 349 of
  \<^verbatim>\<open>Initialize_dali\<close>.\<close>

definition scan_responded :: "u8 list \<Rightarrow> bool" where
  "scan_responded single_response =
     (single_response ! 0 XOR 0xff \<noteq> 0 \<or>
      single_response ! 1 XOR 0xff \<noteq> 0 \<or>
      single_response ! 2 XOR 0xff \<noteq> 0)"

definition compare_responded :: "u8 list \<Rightarrow> bool" where
  "compare_responded rsp =
     (rsp ! 0 XOR 0xff \<noteq> 0 \<or> rsp ! 1 XOR 0xff \<noteq> 0 \<or> rsp ! 2 XOR 0xff \<noteq> 0)"

subsection \<open>The serial port and the outcome of a call\<close>

text \<open>
  \<^verbatim>\<open>Port\<close> is an interface with \<^verbatim>\<open>Write\<close> and \<^verbatim>\<open>Read\<close>. A port is a pair of
  functions over the state \<open>'b\<close> of whatever is behind it. \<open>port_Write\<close> gets the
  frame and gives the error of the write (the count of bytes written is discarded by
  the driver). \<open>port_Read\<close> gets the length of the buffer and gives the bytes it
  stored and the error of the read. The serial library reports a read that times out
  as an error, \<open>ErrTimeout\<close> here; \<open>ErrOther\<close> is any other error.
\<close>

datatype port_error = ErrTimeout | ErrOther

record 'b Port =
  port_Write :: "'b \<Rightarrow> u8 list \<Rightarrow> port_error option \<times> 'b"
  port_Read :: "'b \<Rightarrow> nat \<Rightarrow> (u8 list \<times> port_error option) \<times> 'b"

text \<open>
  The world of a run: the state behind the port, and a transcript the model keeps,
  newest event first. \<open>Sent a c\<close> records a call of \<^verbatim>\<open>Issue_dali_request\<close> that
  wrote its frame, with the address and command it was called with (the frame itself
  does not show them, see \<open>create_dali_frame\<close>). \<open>Heard r\<close> records the buffer a call
  of \<^verbatim>\<open>Wait_dali_response\<close> returned. The transcript is never read by the driver.
\<close>

datatype event = Sent u8 u8 | Heard "u8 list"

record 'b world =
  bus :: 'b
  history :: "event list"

text \<open>
  A call returns, or \<^verbatim>\<open>log.Fatal\<close> ends the process (\<open>Fatal\<close>, with the error it
  logged), or Go panics. \<^verbatim>\<open>time.Sleep\<close> and \<^verbatim>\<open>log.Println\<close> are not modelled.
\<close>

datatype 'a outcome = Returned 'a | Fatal port_error | Panicked

definition andThen :: "'a outcome \<Rightarrow> ('a \<Rightarrow> 'c outcome) \<Rightarrow> 'c outcome" where
  "andThen m f = (case m of Returned x \<Rightarrow> f x | Fatal e \<Rightarrow> Fatal e | Panicked \<Rightarrow> Panicked)"

text \<open>\<^verbatim>\<open>Issue_dali_request\<close>: on a write error \<^verbatim>\<open>log.Fatal(err)\<close> comes before
  \<^verbatim>\<open>return err\<close>; otherwise the function returns \<^verbatim>\<open>nil\<close>.\<close>

definition Issue_dali_request ::
  "'b Port \<Rightarrow> u8 \<Rightarrow> u8 \<Rightarrow> 'b world \<Rightarrow> (port_error option \<times> 'b world) outcome" where
  "Issue_dali_request port dali_address dali_command w =
     (case create_dali_frame dali_address dali_command of
        None \<Rightarrow> Panicked
      | Some message \<Rightarrow>
          (case port_Write port (bus w) message of
             (Some err, b) \<Rightarrow> Fatal err
           | (None, b) \<Rightarrow>
               Returned (None, w\<lparr>bus := b, history := Sent dali_address dali_command # history w\<rparr>)))"

text \<open>\<^verbatim>\<open>Wait_dali_response\<close>: a buffer of 3 zero bytes, into which the read stores
  what it got; on a read error \<^verbatim>\<open>log.Fatal(err)\<close>; otherwise
  \<^verbatim>\<open>return response, nil\<close>.\<close>

definition Wait_dali_response ::
  "'b Port \<Rightarrow> 'b world \<Rightarrow> (u8 list \<times> port_error option \<times> 'b world) outcome" where
  "Wait_dali_response port w =
     (let response = replicate 3 (0 :: u8)
      in case port_Read port (bus w) (length response) of
           ((data, Some err), b) \<Rightarrow> Fatal err
         | ((data, None), b) \<Rightarrow>
             (let response = take (length response) data @ drop (length data) response
              in Returned (response, None, w\<lparr>bus := b, history := Heard response # history w\<rparr>)))"

subsection \<open>The address scanner\<close>

text \<open>One round of the loop of \<^verbatim>\<open>Scan_addresses\<close> (lines 247 to 268) over
  \<open>(response, short_addresses)\<close> and the world. The variable \<^verbatim>\<open>err\<close> is
  overwritten by every call and read only by the final \<^verbatim>\<open>return\<close>, so the loops do
  not carry it.\<close>

definition scan_body ::
  "'b Port \<Rightarrow> u8 \<Rightarrow> u8 list \<times> u8 \<times> 'b world \<Rightarrow> (u8 list \<times> u8 \<times> 'b world) outcome" where
  "scan_body port device_short_add st =
     (case st of (response, short_addresses, w) \<Rightarrow>
        (let address_byte = 1 + push_bit 1 device_short_add
         in andThen (Issue_dali_request port address_byte 0xA1 w) (\<lambda>(err, w).
            andThen (Wait_dali_response port w) (\<lambda>(single_response, err, w).
              if scan_responded single_response then
                andThen (Issue_dali_request port address_byte ON_C w) (\<lambda>(err, w).
                andThen (Issue_dali_request port address_byte OFF_C w) (\<lambda>(err, w).
                  if unat short_addresses < length response then
                    Returned (response[unat short_addresses := address_byte] @ [0],
                              short_addresses + 1, w)
                  else Panicked))
              else Returned (response, short_addresses, w)))))"

lemma unat_succ_below_64: "(d :: u8) < 64 \<Longrightarrow> unat (d + 1) = Suc (unat d)"
  by (simp add: word_less_nat_alt unat_word_ariths)

function scan_loop ::
  "'b Port \<Rightarrow> u8 \<Rightarrow> u8 list \<times> u8 \<times> 'b world \<Rightarrow> (u8 list \<times> u8 \<times> 'b world) outcome" where
  "scan_loop port device_short_add st =
     (if device_short_add < 64 then
        andThen (scan_body port device_short_add st) (\<lambda>st.
          scan_loop port (device_short_add + 1) st)
      else Returned st)"
  by pat_completeness auto
termination
  by (relation "measure (\<lambda>(port, d, st). 64 - unat d)")
     (auto simp add: unat_succ_below_64 word_less_nat_alt)

declare scan_loop.simps [simp del]

definition Scan_addresses ::
  "'b Port \<Rightarrow> 'b world \<Rightarrow> (u8 list \<times> port_error option \<times> 'b world) outcome" where
  "Scan_addresses port w =
     andThen (Issue_dali_request port BROADCAST_C OFF_C w) (\<lambda>(err, w).
     andThen (scan_loop port 0 (replicate 1 0, 0, w)) (\<lambda>(response, short_addresses, w).
     andThen (Issue_dali_request port BROADCAST_C ON_C w) (\<lambda>(err, w).
       Returned (response, err, w))))"

subsection \<open>The commissioner\<close>

text \<open>
  The body of the inner loop of \<^verbatim>\<open>Initialize_dali\<close> (lines 334 to 360) can leave
  the whole function by \<^verbatim>\<open>return rsp_err\<close>: a round ends in \<open>Leave\<close> with the value
  the function returns, or in \<open>Next\<close> with the variables for the following round.
\<close>

datatype ('r, 's) flow = Leave 'r | Next 's

lemma andThen_cong [fundef_cong]:
  "m = m' \<Longrightarrow> (\<And>x. m' = Returned x \<Longrightarrow> f x = f' x) \<Longrightarrow> andThen m f = andThen m' f'"
  by (simp add: andThen_def split: outcome.splits)

definition search_body ::
  "'b Port \<Rightarrow> int \<Rightarrow> int \<Rightarrow> int \<Rightarrow> 'b world \<Rightarrow>
     ((port_error option \<times> 'b world, int \<times> int \<times> int \<times> 'b world) flow) outcome" where
  "search_body port low_longadd high_longadd longadd w =
     (case split_address longadd of (highbyte, middlebyte, lowbyte) \<Rightarrow>
        andThen (Issue_dali_request port 0b10110001 highbyte w) (\<lambda>(err, w).
        andThen (Issue_dali_request port 0b10110001 middlebyte w) (\<lambda>(err, w).
        andThen (Issue_dali_request port 0b10110001 lowbyte w) (\<lambda>(err, w).
        andThen (Issue_dali_request port 0b10101001 0b00000000 w) (\<lambda>(err, w).
        andThen (Wait_dali_response port w) (\<lambda>(rsp, rsp_err, w).
          if rsp_err \<noteq> None then Returned (Leave (rsp_err, w))
          else
            (let (low_longadd, high_longadd) =
                   (if compare_responded rsp then (longadd, high_longadd)
                    else (low_longadd, longadd));
                 longadd = (low_longadd + high_longadd) sdiv 2
             in Returned (Next (low_longadd, high_longadd, longadd, w)))))))))"

lemma andThen_Returned:
  "andThen m f = Returned y \<longleftrightarrow> (\<exists>x. m = Returned x \<and> f x = Returned y)"
  by (cases m) (simp_all add: andThen_def)

lemma sdiv_2_nonneg: "0 \<le> k \<Longrightarrow> k sdiv 2 = k div (2 :: int)"
  by (cases "k = 0") (simp_all add: signed_divide_int_def)

lemma sdiv_2_between:
  fixes low high :: int
  assumes "1 < high - low"
  shows "low < (low + high) sdiv 2 \<and> (low + high) sdiv 2 < high"
proof (cases "0 \<le> low + high")
  case True
  with assms show ?thesis by (simp add: sdiv_2_nonneg) linarith
next
  case False
  then have "(low + high) sdiv 2 = - ((- (low + high)) div 2)"
    by (simp add: signed_divide_int_def sgn_if)
  with assms False show ?thesis by linarith
qed

lemma search_body_Next:
  assumes "search_body port low high longadd w = Returned (Next (low', high', longadd', w'))"
  shows "longadd' = (low' + high') sdiv 2 \<and>
         (low' = longadd \<and> high' = high \<or> low' = low \<and> high' = longadd)"
  using assms
  by (auto simp add: search_body_def andThen_Returned Let_def split: prod.splits if_splits)

text \<open>The inner loop \<^verbatim>\<open>for high_longadd - low_longadd > 1\<close> (lines 332 to 362). It ends
  from every state: after the first round the candidate is the midpoint, and from then
  on each round narrows the window.\<close>

function search_loop ::
  "'b Port \<Rightarrow> int \<Rightarrow> int \<Rightarrow> int \<Rightarrow> 'b world \<Rightarrow>
     ((port_error option \<times> 'b world, int \<times> int \<times> int \<times> 'b world) flow) outcome" where
  "search_loop port low_longadd high_longadd longadd w =
     (if high_longadd - low_longadd > 1 then
        andThen (search_body port low_longadd high_longadd longadd w) (\<lambda>r.
          case r of
            Leave v \<Rightarrow> Returned (Leave v)
          | Next (low_longadd, high_longadd, longadd, w) \<Rightarrow>
              search_loop port low_longadd high_longadd longadd w)
      else Returned (Next (low_longadd, high_longadd, longadd, w)))"
  by pat_completeness auto
termination
proof (relation "measures
    [\<lambda>(port, low, high, longadd, w). if longadd = (low + high) sdiv 2 then 0 else 1,
     \<lambda>(port, low, high, longadd, w). nat (high - low)]", goal_cases)
  case 1
  show ?case by simp
next
  case (2 port low high longadd w r x21 low' x22 high' x23 longadd' w')
  then have b: "search_body port low high longadd w = Returned (Next (low', high', longadd', w'))"
    by simp
  note n = search_body_Next [OF b]
  from 2 have "1 < high - low" by simp
  then have m: "low < (low + high) sdiv 2 \<and> (low + high) sdiv 2 < high"
    by (rule sdiv_2_between)
  show ?case
  proof (cases "longadd = (low + high) sdiv 2")
    case True
    with n m show ?thesis by auto
  next
    case False
    with n show ?thesis by auto
  qed
qed

declare search_loop.simps [simp del]

text \<open>The states the inner loop passes through at its head, from an entry state: the
  entry state itself, and the state each further round ends with.\<close>

inductive search_visits ::
  "'b Port \<Rightarrow> int \<times> int \<times> int \<times> 'b world \<Rightarrow> int \<times> int \<times> int \<times> 'b world \<Rightarrow> bool"
  for port :: "'b Port" and s :: "int \<times> int \<times> int \<times> 'b world" where
  entry: "search_visits port s s"
| round: "search_visits port s (low, high, longadd, w) \<Longrightarrow> 1 < high - low \<Longrightarrow>
          search_body port low high longadd w = Returned (Next s') \<Longrightarrow>
          search_visits port s s'"


text \<open>Lines 367 to 380: the seven requests that assign a short address. The token
  \<^verbatim>\<open>1 + (short_add << 1)\<close> is computed in \<^verbatim>\<open>uint8\<close>.\<close>

definition assign_short_address :: "'b Port \<Rightarrow> int \<Rightarrow> u8 \<Rightarrow> 'b world \<Rightarrow> 'b world outcome" where
  "assign_short_address port longadd short_add w =
     (case split_address (longadd + 1) of (highbyte, middlebyte, lowbyte) \<Rightarrow>
        andThen (Issue_dali_request port 0b10110001 highbyte w) (\<lambda>(err, w).
        andThen (Issue_dali_request port 0b10110001 middlebyte w) (\<lambda>(err, w).
        andThen (Issue_dali_request port 0b10110001 lowbyte w) (\<lambda>(err, w).
        andThen (Issue_dali_request port 0b10110111 (1 + push_bit 1 short_add) w) (\<lambda>(err, w).
        andThen (Issue_dali_request port 0b10101011 0b00000000 w) (\<lambda>(err, w).
        andThen (Issue_dali_request port (1 + push_bit 1 short_add) ON_C w) (\<lambda>(err, w).
        andThen (Issue_dali_request port (1 + push_bit 1 short_add) OFF_C w) (\<lambda>(err, w).
          Returned w))))))))"

text \<open>A call inside a loop that may not end: the loop goes on when the call returns,
  and ends with the process when the call does.\<close>

definition thenLoop :: "'a outcome \<Rightarrow> ('a \<Rightarrow> 'c outcome option) \<Rightarrow> 'c outcome option" where
  "thenLoop m f =
     (case m of Returned x \<Rightarrow> f x | Fatal e \<Rightarrow> Some (Fatal e) | Panicked \<Rightarrow> Some Panicked)"

text \<open>
  The outer loop \<^verbatim>\<open>for longadd <= 0xFFFFFF - 2 && short_add <= 64\<close> (lines 329 to
  391). Nothing in its text bounds its rounds (a round that finds the window closed at
  the ceiling changes no variable), so it has fuel, one unit for a round: \<open>None\<close> is a
  run that is still in the loop when the fuel is spent.
\<close>

fun discovery_loop ::
  "nat \<Rightarrow> 'b Port \<Rightarrow> int \<Rightarrow> int \<Rightarrow> int \<Rightarrow> u8 \<Rightarrow> 'b world \<Rightarrow>
     ((port_error option \<times> 'b world, int \<times> int \<times> int \<times> u8 \<times> 'b world) flow) outcome option" where
  "discovery_loop 0 port low_longadd high_longadd longadd short_add w = None"
| "discovery_loop (Suc fuel) port low_longadd high_longadd longadd short_add w =
     (if longadd \<le> 0xFFFFFF - 2 \<and> short_add \<le> 64 then
        thenLoop (search_loop port low_longadd high_longadd longadd w) (\<lambda>r.
          case r of
            Leave v \<Rightarrow> Some (Returned (Leave v))
          | Next (low_longadd, high_longadd, longadd, w) \<Rightarrow>
              if high_longadd \<noteq> 0xFFFFFF then
                thenLoop (assign_short_address port longadd short_add w) (\<lambda>w.
                  discovery_loop fuel port low_longadd 0xFFFFFF
                    ((low_longadd + 0xFFFFFF) sdiv 2) (short_add + 1) w)
              else discovery_loop fuel port low_longadd high_longadd longadd short_add w)
      else Some (Returned (Next (low_longadd, high_longadd, longadd, short_add, w))))"



subsection \<open>Ports for the scenarios\<close>

text \<open>A bus on which nothing ever answers: every write succeeds and every read fills
  the buffer with idle bytes.\<close>

definition silent_port :: "unit Port" where
  "silent_port =
     \<lparr>port_Write = (\<lambda>b frame. (None, b)),
      port_Read = (\<lambda>b n. ((replicate n 0xFF, None), b))\<rparr>"

text \<open>A bus that plays a script: every write succeeds, every read takes the next
  buffer of the script, and a read after the end of the script times out.\<close>

definition scripted_port :: "u8 list list Port" where
  "scripted_port =
     \<lparr>port_Write = (\<lambda>b frame. (None, b)),
      port_Read = (\<lambda>b n. case b of [] \<Rightarrow> (([], Some ErrTimeout), [])
                                  | r # b' \<Rightarrow> ((take n r, None), b'))\<rparr>"


definition start :: "'b \<Rightarrow> 'b world" where
  "start b = \<lparr>bus = b, history = []\<rparr>"

subsection \<open>Reading the transcript\<close>

text \<open>
  The 24-bit search address a device holds after the three
  \<^verbatim>\<open>0b10110001\<close> requests (high byte, middle byte, low byte).
\<close>

definition search_address :: "u8 \<Rightarrow> u8 \<Rightarrow> u8 \<Rightarrow> int" where
  "search_address highbyte middlebyte lowbyte =
     uint highbyte * 65536 + uint middlebyte * 256 + uint lowbyte"

text \<open>
  The compares of a transcript, newest first: a compare is the buffer heard right after
  the requests search-address high, middle, low and compare (\<^verbatim>\<open>0b10101001\<close>); it is
  listed with the candidate those three bytes spell.
\<close>

fun compare_at :: "event list \<Rightarrow> (int \<times> u8 list) option" where
  "compare_at (Heard rsp # Sent a z # Sent b l # Sent c m # Sent d h # es) =
     (if a = 0b10101001 \<and> b = 0b10110001 \<and> c = 0b10110001 \<and> d = 0b10110001
      then Some (search_address h m l, rsp) else None)"
| "compare_at es = None"

fun compares :: "event list \<Rightarrow> (int \<times> u8 list) list" where
  "compares [] = []"
| "compares (e # es) =
     (case compare_at (e # es) of Some x \<Rightarrow> x # compares es | None \<Rightarrow> compares es)"





text \<open>The tokens programmed by \<^verbatim>\<open>0b10110111\<close> requests, oldest first, and the
  requests of a transcript, oldest first.\<close>

definition assigned_tokens :: "event list \<Rightarrow> u8 list" where
  "assigned_tokens h = [c. Sent a c \<leftarrow> rev h, a = 0b10110111]"

definition requests :: "event list \<Rightarrow> (u8 \<times> u8) list" where
  "requests h = [(a, c). Sent a c \<leftarrow> rev h]"

text \<open>
  What a scan leaves in the transcript for the short address \<open>a\<close> when the buffer \<open>r\<close>
  was heard, oldest event first: the query to the address byte \<^verbatim>\<open>1 + (a << 1)\<close>, the
  buffer, and on a response the requests on and off to the same address byte.
\<close>

definition address_byte :: "nat \<Rightarrow> u8" where
  "address_byte a = 1 + push_bit 1 (of_nat a)"

definition scan_round :: "nat \<Rightarrow> u8 list \<Rightarrow> event list" where
  "scan_round a r =
     [Sent (address_byte a) 0xA1, Heard r] @
     (if scan_responded r then [Sent (address_byte a) ON_C, Sent (address_byte a) OFF_C]
      else [])"

text \<open>The values a finished scan returns, and its transcript, oldest event first.\<close>

definition scan_result ::
  "(u8 list \<times> port_error option \<times> 'b world) outcome \<Rightarrow> (u8 list \<times> port_error option) option" where
  "scan_result m = (case m of Returned (response, err, w) \<Rightarrow> Some (response, err) | _ \<Rightarrow> None)"

definition scan_transcript ::
  "(u8 list \<times> port_error option \<times> 'b world) outcome \<Rightarrow> event list" where
  "scan_transcript m = (case m of Returned (response, err, w) \<Rightarrow> rev (history w) | _ \<Rightarrow> [])"

text \<open>A script for a bus on which the short addresses 3 and 7 answer the scan.\<close>

definition bus_3_7 :: "u8 list list" where
  "bus_3_7 =
     replicate 3 [0xff, 0xff, 0xff] @ [[0xff, 0xfe, 0xff]] @
     replicate 3 [0xff, 0xff, 0xff] @ [[0xff, 0xfe, 0xff]] @
     replicate 56 [0xff, 0xff, 0xff]"

section \<open>The encoder's dead loop\<close>

lemma bit_loop_skips: "0 \<le> i \<Longrightarrow> bit_loop dali_convert i st = Some st"
  by (cases st) simp

lemma frame_loop_skips: "frame_loop dali_command 0 dali_convert st = Some st"
  by (simp add: bit_loop_skips)

text \<open>
  C9. For every address and command the bit-extraction loop of the frame encoder runs
  its body zero times (\<^verbatim>\<open>for i := 7; i < 0; i++\<close> starts with its condition false),
  so \<^verbatim>\<open>create_dali_frame\<close> returns the 5 bytes \<open>0x40, 0, 0, 0, 0\<close>: the start symbol
  and no data bit.
\<close>

theorem create_dali_frame_start_only:
  "bit_loop dali_address 7 st = Some st \<and>
   bit_loop dali_command 7 st = Some st \<and>
   create_dali_frame dali_address dali_command = Some [0x40, 0, 0, 0, 0]"
  by (simp add: create_dali_frame_def bit_loop_skips frame_loop_skips numeral_eq_Suc)

theorem create_dali_frame_start_only_witness:
  "bit_loop 0xFF 7 ([0x40, 0, 0, 0, 0], 0, 5) = Some ([0x40, 0, 0, 0, 0], 0, 5) \<and>
   create_dali_frame 0xFF 0x05 = Some [0x40, 0, 0, 0, 0]"
  using create_dali_frame_start_only [of "0xFF" "([0x40, 0, 0, 0, 0], 0, 5)" "0x05"]
  by simp

section \<open>Classifying a response\<close>

lemma xor_ff_iff: "(x :: u8) XOR 0xff \<noteq> 0 \<longleftrightarrow> x \<noteq> 0xff"
proof -
  have "x = 0xff" if a: "x XOR 0xff = 0"
  proof -
    have "x = (x XOR 0xff) XOR 0xff" by (simp add: xor.assoc)
    with a show ?thesis by simp
  qed
  moreover have "(0xff :: u8) XOR 0xff = 0" by simp
  ultimately show ?thesis by auto
qed

text \<open>
  C6. For all contents of the 3-byte buffer, the test is false (no response) exactly
  when all three bytes are \<open>0xFF\<close>, and true (responded) exactly when at least one byte
  differs from \<open>0xFF\<close>; the scanner's test and the commissioner's test are the same
  rule.
\<close>

theorem response_classification:
  "scan_responded [b0, b1, b2] = (\<not> (b0 = 0xff \<and> b1 = 0xff \<and> b2 = 0xff)) \<and>
   compare_responded [b0, b1, b2] = (\<not> (b0 = 0xff \<and> b1 = 0xff \<and> b2 = 0xff)) \<and>
   compare_responded [b0, b1, b2] = scan_responded [b0, b1, b2]"
  by (simp add: scan_responded_def compare_responded_def xor_ff_iff)

theorem response_classification_witness:
  "scan_responded [0xff, 0xff, 0xff] = False \<and>
   compare_responded [0xff, 0xff, 0xff] = False \<and>
   scan_responded [0xff, 0xfe, 0xff] = True \<and>
   compare_responded [0xff, 0xfe, 0xff] = True"
  using response_classification [of "0xff" "0xff" "0xff"]
        response_classification [of "0xff" "0xfe" "0xff"]
  by simp

section \<open>Transport faults\<close>

lemma frame_const: "create_dali_frame a c = Some [0x40, 0, 0, 0, 0]"
  by (simp add: create_dali_frame_def frame_loop_skips numeral_eq_Suc)

lemma Issue_unfold:
  "Issue_dali_request port a c w =
     (case port_Write port (bus w) [0x40, 0, 0, 0, 0] of
        (Some err, b) \<Rightarrow> Fatal err
      | (None, b) \<Rightarrow> Returned (None, w\<lparr>bus := b, history := Sent a c # history w\<rparr>))"
  by (simp add: Issue_dali_request_def frame_const)

lemma Issue_Returned:
  "Issue_dali_request port a c w = Returned (err, w') \<Longrightarrow>
     err = None \<and> history w' = Sent a c # history w"
  by (auto simp add: Issue_unfold split: prod.splits option.splits)

lemma Wait_Returned:
  "Wait_dali_response port w = Returned (rsp, err, w') \<Longrightarrow>
     err = None \<and> length rsp = 3 \<and> history w' = Heard rsp # history w"
  by (auto simp add: Wait_dali_response_def Let_def split: prod.splits option.splits)

lemma search_body_no_Leave: "search_body port low high longadd w \<noteq> Returned (Leave v)"
  by (auto simp add: search_body_def andThen_Returned Let_def
           split: prod.splits if_splits dest!: Wait_Returned)

lemma search_loop_no_Leave: "search_loop port low high longadd w \<noteq> Returned (Leave v)"
proof (induction port low high longadd w rule: search_loop.induct)
  case (1 port low high longadd w)
  show ?case
  proof (cases "high - low > 1")
    case False
    then show ?thesis by (simp add: search_loop.simps [of port low high longadd w])
  next
    case True
    show ?thesis
    proof
      assume "search_loop port low high longadd w = Returned (Leave v)"
      then have a: "andThen (search_body port low high longadd w) (\<lambda>r.
          case r of Leave v \<Rightarrow> Returned (Leave v)
          | Next (l, h, c, w) \<Rightarrow> search_loop port l h c w) = Returned (Leave v)"
        using True by (simp add: search_loop.simps [of port low high longadd w])
      from a obtain r where b: "search_body port low high longadd w = Returned r"
        and c: "(case r of Leave v \<Rightarrow> Returned (Leave v)
                 | Next (l, h, c, w) \<Rightarrow> search_loop port l h c w) = Returned (Leave v)"
        by (auto simp add: andThen_Returned)
      show False
      proof (cases r)
        case (Leave u)
        with b search_body_no_Leave show False by blast
      next
        case (Next s)
        obtain l h c w' where s: "s = (l, h, c, w')" by (cases s) auto
        from "1.IH" [OF True b Next] s c Next show False by auto
      qed
    qed
  qed
qed

lemma thenLoop_Some_Returned:
  "thenLoop m f = Some (Returned y) \<longleftrightarrow> (\<exists>x. m = Returned x \<and> f x = Some (Returned y))"
  by (cases m) (simp_all add: thenLoop_def)

lemma discovery_loop_no_Leave:
  "discovery_loop fuel port low high longadd short_add w \<noteq> Some (Returned (Leave v))"
proof (induction fuel arbitrary: low high longadd short_add w)
  case 0
  show ?case by simp
next
  case (Suc fuel)
  show ?case
    by (auto simp add: thenLoop_Some_Returned search_loop_no_Leave Suc.IH
             split: flow.splits prod.splits if_splits)
qed

text \<open>
  C10. \<^verbatim>\<open>Wait_dali_response\<close> returns a nil error whenever it returns (a failing read
  ends the process in \<^verbatim>\<open>log.Fatal\<close>), so the branch \<^verbatim>\<open>if rsp_err != nil\<close> of the
  commissioner is never taken: neither a round of the inner loop, nor the inner loop,
  nor the outer loop ever leaves by \<^verbatim>\<open>return rsp_err\<close>.
\<close>

theorem Wait_error_always_nil:
  "(Wait_dali_response port w = Returned (response, rsp_err, w') \<longrightarrow> rsp_err = None) \<and>
   search_body port low high longadd w \<noteq> Returned (Leave v) \<and>
   search_loop port low high longadd w \<noteq> Returned (Leave v) \<and>
   discovery_loop fuel port low high longadd short_add w \<noteq> Some (Returned (Leave v))"
  using Wait_Returned [of port w response rsp_err w']
  by (simp add: search_body_no_Leave search_loop_no_Leave discovery_loop_no_Leave)

theorem Wait_error_always_nil_witness:
  "Wait_dali_response scripted_port (start [[0xff, 0xff, 0xff]]) =
     Returned ([0xff, 0xff, 0xff], None, \<lparr>bus = [], history = [Heard [0xff, 0xff, 0xff]]\<rparr>) \<and>
   search_loop scripted_port 0 0xFFFFFF 0x7FFFFF (start [[0xff, 0xff, 0xff]])
     \<noteq> Returned (Leave (Some ErrTimeout, start []))"
  using Wait_error_always_nil [of scripted_port "start [[0xff, 0xff, 0xff]]"
          "[0xff, 0xff, 0xff]" None "\<lparr>bus = [], history = [Heard [0xff, 0xff, 0xff]]\<rparr>"
          0 "0xFFFFFF" "0x7FFFFF" "(Some ErrTimeout, start [])" 0 0]
  by (simp add: Wait_dali_response_def Let_def scripted_port_def start_def)






section \<open>The inner search\<close>



lemma andThen_Issue:
  "andThen (Issue_dali_request port a c w) f = Returned y \<longleftrightarrow>
     (\<exists>w1. Issue_dali_request port a c w = Returned (None, w1) \<and>
           history w1 = Sent a c # history w \<and> f (None, w1) = Returned y)"
  by (auto simp add: andThen_Returned dest: Issue_Returned)

lemma andThen_Wait:
  "andThen (Wait_dali_response port w) f = Returned y \<longleftrightarrow>
     (\<exists>rsp w1. Wait_dali_response port w = Returned (rsp, None, w1) \<and> length rsp = 3 \<and>
           history w1 = Heard rsp # history w \<and> f (rsp, None, w1) = Returned y)"
  by (auto simp add: andThen_Returned dest: Wait_Returned)



lemma search_loop_unfold_step:
  assumes "1 < high - low"
    and "search_loop port low high longadd w = Returned (Next (low', high', longadd', w'))"
  shows "\<exists>l1 h1 c1 w1. search_body port low high longadd w = Returned (Next (l1, h1, c1, w1)) \<and>
           search_loop port l1 h1 c1 w1 = Returned (Next (low', high', longadd', w'))"
proof -
  from assms have "andThen (search_body port low high longadd w) (\<lambda>r.
      case r of Leave v \<Rightarrow> Returned (Leave v)
      | Next (l, h, c, w) \<Rightarrow> search_loop port l h c w) = Returned (Next (low', high', longadd', w'))"
    by (simp add: search_loop.simps [of port low high longadd w])
  then obtain r where b: "search_body port low high longadd w = Returned r"
    and c: "(case r of Leave v \<Rightarrow> Returned (Leave v)
             | Next (l, h, c, w) \<Rightarrow> search_loop port l h c w) = Returned (Next (low', high', longadd', w'))"
    by (auto simp add: andThen_Returned)
  show ?thesis
  proof (cases r)
    case (Leave v)
    with c show ?thesis by simp
  next
    case (Next s)
    obtain l1 h1 c1 w1 where "s = (l1, h1, c1, w1)" by (cases s) auto
    with Next b c show ?thesis by auto
  qed
qed

lemma search_loop_done:
  assumes "\<not> 1 < high - low"
    and "search_loop port low high longadd w = Returned (Next (low', high', longadd', w'))"
  shows "low' = low \<and> high' = high \<and> longadd' = longadd \<and> w' = w"
  using assms by (simp add: search_loop.simps [of port low high longadd w])

lemma search_loop_rounds [case_names round]:
  assumes "\<And>port low high longadd w.
     (\<And>l1 h1 c1 w1. 1 < high - low \<Longrightarrow>
        search_body port low high longadd w = Returned (Next (l1, h1, c1, w1)) \<Longrightarrow>
        P port l1 h1 c1 w1) \<Longrightarrow> P port low high longadd w"
  shows "P port low high longadd w"
proof (induction port low high longadd w rule: search_loop.induct)
  case (1 port low high longadd w)
  show ?case
  proof (rule assms)
    fix l1 h1 c1 w1
    assume "1 < high - low"
      and "search_body port low high longadd w = Returned (Next (l1, h1, c1, w1))"
    then show "P port l1 h1 c1 w1"
      by (rule "1.IH") (rule refl)+
  qed
qed


lemma search_body_narrows:
  assumes b: "search_body port low high longadd w = Returned (Next (l1, h1, c1, w1))"
    and "1 < high - low" "longadd = (low + high) sdiv 2"
  shows "low \<le> l1 \<and> l1 < h1 \<and> h1 \<le> high \<and> h1 - l1 < high - low \<and> c1 = (l1 + h1) sdiv 2"
proof -
  from sdiv_2_between [OF assms(2)] assms(3) have "low < longadd \<and> longadd < high" by simp
  with search_body_Next [OF b] show ?thesis by auto
qed

lemma search_loop_collapses:
  "search_loop port low high longadd w = Returned (Next (low', high', longadd', w')) \<Longrightarrow>
   longadd = (low + high) sdiv 2 \<Longrightarrow> low < high \<Longrightarrow>
   high' - low' = 1 \<and> low \<le> low' \<and> high' \<le> high \<and> longadd' = (low' + high') sdiv 2"
proof (induction port low high longadd w rule: search_loop_rounds)
  case (round port low high longadd w)
  show ?case
  proof (cases "1 < high - low")
    case False
    from search_loop_done [OF False round.prems(1)] round.prems(2,3) False
    show ?thesis by auto
  next
    case True
    from search_loop_unfold_step [OF True round.prems(1)] obtain l1 h1 c1 w1 where
      b: "search_body port low high longadd w = Returned (Next (l1, h1, c1, w1))"
      and l: "search_loop port l1 h1 c1 w1 = Returned (Next (low', high', longadd', w'))"
      by blast
    note n = search_body_narrows [OF b True round.prems(2)]
    from n have "c1 = (l1 + h1) sdiv 2" "l1 < h1" by simp_all
    from round.IH [OF True b l this] n show ?thesis by auto
  qed
qed

lemma compares_round:
  "compares (Heard rsp # Sent 0b10101001 z # Sent 0b10110001 lo # Sent 0b10110001 mi #
             Sent 0b10110001 hi # es) = (search_address hi mi lo, rsp) # compares es"
  by simp




lemma search_visits_window:
  assumes "search_visits port (low, high, longadd, w) s'"
    and "0 \<le> low" "low < high" "high \<le> 0xFFFFFF" "longadd = (low + high) sdiv 2"
  shows "case s' of (l, h, c, v) \<Rightarrow> 0 \<le> l \<and> l < h \<and> h \<le> 0xFFFFFF \<and> c = (l + h) sdiv 2"
  using assms
proof (induction rule: search_visits.induct)
  case entry
  then show ?case by simp
next
  case (round l h c v s')
  obtain l1 h1 c1 v1 where s': "s' = (l1, h1, c1, v1)" by (cases s') auto
  from round.IH round.prems have i: "0 \<le> l" "l < h" "h \<le> 0xFFFFFF" "c = (l + h) sdiv 2"
    by simp_all
  from search_body_narrows [OF round.hyps(3) [unfolded s'] round.hyps(2) i(4)] i s'
  show ?case by auto
qed

lemma search_loop_visits:
  "search_loop port low high longadd w = Returned (Next s') \<Longrightarrow>
   search_visits port s (low, high, longadd, w) \<Longrightarrow> search_visits port s s'"
proof (induction port low high longadd w rule: search_loop_rounds)
  case (round port low high longadd w)
  obtain l' h' c' w' where s': "s' = (l', h', c', w')" by (cases s') auto
  show ?case
  proof (cases "1 < high - low")
    case False
    from search_loop_done [OF False round.prems(1) [unfolded s']] s' round.prems(2)
    show ?thesis by simp
  next
    case True
    from search_loop_unfold_step [OF True round.prems(1) [unfolded s']] obtain l1 h1 c1 w1 where
      b: "search_body port low high longadd w = Returned (Next (l1, h1, c1, w1))"
      and l: "search_loop port l1 h1 c1 w1 = Returned (Next s')"
      using s' by blast
    from search_visits.round [OF round.prems(2) True b]
    have "search_visits port s (l1, h1, c1, w1)" .
    from round.IH [OF True b l this] show ?thesis .
  qed
qed

text \<open>
  C5. The search window at every round of the inner loop. The loop is entered with
  \<open>0 \<le> low < high \<le> 0xFFFFFF\<close> and the candidate at the midpoint (so it is at the
  start of \<^verbatim>\<open>Initialize_dali\<close>, and after every assignment, which resets \<open>high\<close> to
  \<open>0xFFFFFF\<close> and the candidate to the midpoint). Then every state the loop passes
  through has \<open>low < high\<close> with both bounds in \<open>[0, 0xFFFFFF]\<close>; every round makes
  \<open>high - low\<close> strictly smaller; and the state the loop ends with is one of these
  states and has \<open>high - low = 1\<close>.
\<close>

theorem search_window_invariant:
  assumes "0 \<le> low" "low < high" "high \<le> 0xFFFFFF" "longadd = (low + high) sdiv 2"
    and "search_visits port (low, high, longadd, w) (l, h, c, v)"
  shows "(0 \<le> l \<and> l < h \<and> h \<le> 0xFFFFFF \<and> c = (l + h) sdiv 2) \<and>
         (1 < h - l \<and> search_body port l h c v = Returned (Next (l1, h1, c1, v1)) \<longrightarrow>
            l1 < h1 \<and> h1 - l1 < h - l) \<and>
         (search_loop port low high longadd w = Returned (Next (low', high', longadd', w')) \<longrightarrow>
            high' - low' = 1 \<and>
            search_visits port (low, high, longadd, w) (low', high', longadd', w'))"
proof -
  from search_visits_window [OF assms(5) assms(1-4)]
  have i: "0 \<le> l \<and> l < h \<and> h \<le> 0xFFFFFF \<and> c = (l + h) sdiv 2" by simp
  have n: "l1 < h1 \<and> h1 - l1 < h - l"
    if "1 < h - l" "search_body port l h c v = Returned (Next (l1, h1, c1, v1))"
    using search_body_narrows [OF that(2) that(1)] i by simp
  have f: "high' - low' = 1 \<and>
      search_visits port (low, high, longadd, w) (low', high', longadd', w')"
    if r: "search_loop port low high longadd w = Returned (Next (low', high', longadd', w'))"
    using search_loop_collapses [OF r assms(4) assms(2)]
      search_loop_visits [OF r search_visits.entry] by simp
  from i n f show ?thesis by blast
qed

lemma small_search_body:
  "search_body silent_port 0 3 1 (start ()) =
     Returned (Next (0, 1, 0, \<lparr>bus = (), history =
       [Heard [0xff, 0xff, 0xff], Sent 0b10101001 0, Sent 0b10110001 1, Sent 0b10110001 0,
        Sent 0b10110001 0]\<rparr>))"
  by code_simp

lemma small_search:
  "search_loop silent_port 0 3 1 (start ()) =
     Returned (Next (0, 1, 0, \<lparr>bus = (), history =
       [Heard [0xff, 0xff, 0xff], Sent 0b10101001 0, Sent 0b10110001 1, Sent 0b10110001 0,
        Sent 0b10110001 0]\<rparr>))"
  by code_simp

theorem search_window_invariant_witness:
  "search_visits silent_port (0, 3, 1, start ()) (0, 3, 1, start ()) \<and>
   (1 :: int) = (0 + 3) sdiv 2 \<and>
   search_body silent_port 0 3 1 (start ()) =
     Returned (Next (0, 1, 0, \<lparr>bus = (), history =
       [Heard [0xff, 0xff, 0xff], Sent 0b10101001 0, Sent 0b10110001 1, Sent 0b10110001 0,
        Sent 0b10110001 0]\<rparr>)) \<and>
   (1 :: int) - 0 < 3 - 0 \<and>
   search_visits silent_port (0, 3, 1, start ()) (0, 1, 0, \<lparr>bus = (), history =
       [Heard [0xff, 0xff, 0xff], Sent 0b10101001 0, Sent 0b10110001 1, Sent 0b10110001 0,
        Sent 0b10110001 0]\<rparr>)"
proof -
  have m: "(1 :: int) = (0 + 3) sdiv 2" by (simp add: sdiv_2_nonneg)
  have e: "search_visits silent_port (0, 3, 1, start ()) (0, 3, 1, start ())"
    by (rule search_visits.entry)
  from search_window_invariant [of 0 3 1 silent_port "start ()" 0 3 1 "start ()", OF _ _ _ m e]
    small_search_body small_search m e
  show ?thesis by simp
qed







section \<open>The address scanner\<close>

lemma of_nat_lt_64: "n < 64 \<Longrightarrow> (of_nat n :: u8) < 64"
  by (simp add: word_less_nat_alt unat_of_nat)

lemma unat_of_nat_small: "n < 256 \<Longrightarrow> unat (of_nat n :: u8) = n"
  by (simp add: unat_of_nat)

lemma scan_body_round:
  assumes "scan_body port (of_nat a) (xs @ [0], of_nat (length xs), w) = Returned (resp1, k1, w1)"
    and "length xs < 255"
  shows "\<exists>r. rev (history w1) = rev (history w) @ scan_round a r \<and>
           resp1 = xs @ (if scan_responded r then [address_byte a] else []) @ [0] \<and>
           k1 = of_nat (length (xs @ (if scan_responded r then [address_byte a] else [])))"
  using assms
  by (simp add: scan_body_def andThen_Issue andThen_Wait Let_def unat_of_nat_small
        scan_round_def address_byte_def split: if_splits) auto

lemma upt_from: "n < 64 \<Longrightarrow> [n..<64] = n # [Suc n..<64]"
  by (simp add: upt_conv_Cons)

lemma scan_loop_from:
  "scan_loop port (of_nat n) (xs @ [0], of_nat (length xs), w) = Returned (resp', k', w') \<Longrightarrow>
   n \<le> 64 \<Longrightarrow> length xs \<le> n \<Longrightarrow>
   \<exists>rs. length rs = 64 - n \<and>
     rev (history w') =
       rev (history w) @ concat (map (\<lambda>(a, r). scan_round a r) (zip [n..<64] rs)) \<and>
     resp' = xs @ [address_byte a. (a, r) \<leftarrow> zip [n..<64] rs, scan_responded r] @ [0]"
proof (induction "64 - n" arbitrary: n xs w)
  case 0
  then have n: "n = 64" by simp
  with "0.prems"(1) have "scan_loop port 64 (xs @ [0], of_nat (length xs), w) =
      Returned (resp', k', w')" by simp
  then have "resp' = xs @ [0]" "w' = w"
    by (simp_all add: scan_loop.simps [of port 64])
  with n show ?case by simp
next
  case (Suc m)
  then have n: "n < 64" by simp
  from of_nat_lt_64 [OF n] Suc.prems(1)
  have "andThen (scan_body port (of_nat n) (xs @ [0], of_nat (length xs), w))
          (\<lambda>st. scan_loop port (of_nat n + 1) st) = Returned (resp', k', w')"
    by (simp add: scan_loop.simps [of port "of_nat n"])
  then obtain resp1 k1 w1 where
    b: "scan_body port (of_nat n) (xs @ [0], of_nat (length xs), w) = Returned (resp1, k1, w1)"
    and l: "scan_loop port (of_nat (Suc n)) (resp1, k1, w1) = Returned (resp', k', w')"
    by (auto simp add: andThen_Returned add.commute)
  from Suc.prems(3) n have "length xs < 255" by simp
  from scan_body_round [OF b this] obtain r where
    h: "rev (history w1) = rev (history w) @ scan_round n r"
    and r1: "resp1 = xs @ (if scan_responded r then [address_byte n] else []) @ [0]"
    and k1: "k1 = of_nat (length (xs @ (if scan_responded r then [address_byte n] else [])))"
    by blast
  define ys where "ys = xs @ (if scan_responded r then [address_byte n] else [])"
  from l r1 k1 have l': "scan_loop port (of_nat (Suc n)) (ys @ [0], of_nat (length ys), w1) =
      Returned (resp', k', w')"
    by (simp add: ys_def)
  from Suc.hyps(2) have m: "m = 64 - Suc n" by simp
  from n have n': "Suc n \<le> 64" by simp
  from Suc.prems(3) have "length ys \<le> Suc n" by (simp add: ys_def)
  from Suc.hyps(1) [OF m l' n' this] obtain rs where
    rs: "length rs = 64 - Suc n"
    and h': "rev (history w') =
       rev (history w1) @ concat (map (\<lambda>(a, r). scan_round a r) (zip [Suc n..<64] rs))"
    and r': "resp' = ys @ [address_byte a. (a, r) \<leftarrow> zip [Suc n..<64] rs, scan_responded r] @ [0]"
    by blast
  have "length (r # rs) = 64 - n" using rs n by simp
  moreover have "rev (history w') =
       rev (history w) @ concat (map (\<lambda>(a, r). scan_round a r) (zip [n..<64] (r # rs)))"
    using h h' by (simp add: upt_from [OF n])
  moreover have "resp' = xs @ [address_byte a. (a, r) \<leftarrow> zip [n..<64] (r # rs), scan_responded r] @ [0]"
    using r' by (simp add: upt_from [OF n] ys_def)
  ultimately show ?case by blast
qed

text \<open>
  C7, as the code has it. A scan that returns has sent broadcast off, then for each of
  the 64 short addresses 0 to 63 in ascending order one query (\<^verbatim>\<open>0xA1\<close>) to its
  address byte \<^verbatim>\<open>1 + (a << 1)\<close>, read one buffer, and on a response sent on and then off
  to that address byte, and at last sent broadcast on. It returns a nil error and the
  byte string of the address bytes of exactly the short addresses that responded, in
  ascending order, followed by one 0 byte.
\<close>

theorem scan_returns_address_bytes:
  assumes "scan_result (Scan_addresses port w) = Some (response, err)"
  shows "\<exists>rs. length rs = 64 \<and>
     scan_transcript (Scan_addresses port w) =
       rev (history w) @ [Sent BROADCAST_C OFF_C] @
       concat (map (\<lambda>(a, r). scan_round a r) (zip [0..<64] rs)) @ [Sent BROADCAST_C ON_C] \<and>
     response = [address_byte a. (a, r) \<leftarrow> zip [0..<64] rs, scan_responded r] @ [0] \<and>
     err = None"
proof -
  from assms obtain w' where r: "Scan_addresses port w = Returned (response, err, w')"
    by (auto simp add: scan_result_def split: outcome.splits)
  then obtain e0 w0 resp k w1 where
    a: "Issue_dali_request port BROADCAST_C OFF_C w = Returned (e0, w0)"
    and l: "scan_loop port 0 ([0], 0, w0) = Returned (resp, k, w1)"
    and c: "Issue_dali_request port BROADCAST_C ON_C w1 = Returned (err, w')"
    and "response = resp"
    by (auto simp add: Scan_addresses_def andThen_Returned split: prod.splits)
  from Issue_Returned [OF a] have i0: "history w0 = Sent BROADCAST_C OFF_C # history w" by simp
  from Issue_Returned [OF c] \<open>response = resp\<close>
  have i1: "history w' = Sent BROADCAST_C ON_C # history w1" "response = resp" "err = None"
    by simp_all
  from l have "scan_loop port (of_nat 0) ([] @ [0], of_nat (length []), w0) = Returned (resp, k, w1)"
    by simp
  from scan_loop_from [OF this] obtain rs where
    "length rs = 64"
    "rev (history w1) = rev (history w0) @ concat (map (\<lambda>(a, r). scan_round a r) (zip [0..<64] rs))"
    "resp = [address_byte a. (a, r) \<leftarrow> zip [0..<64] rs, scan_responded r] @ [0]"
    by auto
  with i0 i1 r show ?thesis
    by (auto simp add: scan_transcript_def)
qed

lemma scan_3_7: "scan_result (Scan_addresses scripted_port (start bus_3_7)) = Some ([7, 15, 0], None)"
  by code_simp

theorem scan_returns_address_bytes_witness:
  "scan_result (Scan_addresses scripted_port (start bus_3_7)) = Some ([7, 15, 0], None) \<and>
   (\<exists>rs. length rs = 64 \<and>
      [7, 15, 0] = [address_byte a. (a, r) \<leftarrow> zip [0..<64] rs, scan_responded r] @ [0])"
  using scan_returns_address_bytes [OF scan_3_7] scan_3_7 by blast

text \<open>
  The claim C7 as the specification states it fails: on a bus where the short addresses
  3 and 7 respond, the scan returns the bytes 7, 15, 0, which is neither the set
  \<open>{3, 7}\<close> nor the list of 3 and 7.
\<close>

theorem scan_3_7_returns_bytes:
  "scan_result (Scan_addresses scripted_port (start bus_3_7)) = Some ([7, 15, 0], None) \<and>
   set [7, 15, 0 :: u8] \<noteq> {3, 7} \<and> [7, 15, 0 :: u8] \<noteq> [3, 7]"
proof -
  have "(0 :: u8) \<in> set [7, 15, 0]" by simp
  moreover have "(0 :: u8) \<notin> {3, 7}" by simp
  ultimately have "set [7, 15, 0 :: u8] \<noteq> {3, 7}" by blast
  with scan_3_7 show ?thesis by simp
qed

end
